theory Spec2Isabelle
  imports Main "HOL-Library.Sublist"
begin

section \<open>The file system seen by the engine\<close>

text \<open>
  The engine of \<^verbatim>\<open>mklndir/core.py\<close> reads a source tree and writes a target tree.
  The model keeps the two sides apart: the source side is a tree value that the walk only
  reads, the target side is a store from paths to nodes that the walk changes. So the model
  covers the invocations whose target does not lie inside the source, on trees without
  symbolic links.

  A path is the list of its components; \<open>str(path)\<close> joins them with a slash.
  A file identity is the pair \<open>(st_dev, st_ino)\<close> that \<open>samefile\<close> compares.
\<close>

type_synonym path = "string list"
type_synonym ident = "nat \<times> nat"

fun path_str :: "path \<Rightarrow> string" where
  "path_str [] = []"
| "path_str [c] = c"
| "path_str (c # d # cs) = c @ ''/'' @ path_str (d # cs)"

text \<open>\<open>path.name\<close> is the last component, and the empty string when there is none.\<close>

definition path_name :: "path \<Rightarrow> string" where
  "path_name p = (if p = [] then [] else last p)"

text \<open>Exceptions: an \<open>OSError\<close> with its errno, or any other \<open>Exception\<close>.\<close>

datatype exn = OSError nat | OtherException

definition EPERM :: nat where "EPERM = 1"
definition ENOENT :: nat where "ENOENT = 2"
definition EACCES :: nat where "EACCES = 13"
definition EEXIST :: nat where "EEXIST = 17"
definition EXDEV :: nat where "EXDEV = 18"
definition ENOTDIR :: nat where "ENOTDIR = 20"
definition EISDIR :: nat where "EISDIR = 21"

text \<open>\<open>PermissionError\<close> is the subclass of \<open>OSError\<close> for EACCES and EPERM.\<close>

definition is_PermissionError :: "exn \<Rightarrow> bool" where
  "is_PermissionError e = (e = OSError EACCES \<or> e = OSError EPERM)"

text \<open>
  The source side. An entry yielded by \<open>iterdir()\<close> is a regular file with its identity,
  a directory with its entries in the order the listing yields them, a directory whose
  listing raises, or something that is neither a file nor a directory.
\<close>

datatype src =
    SrcFile ident
  | SrcDir "(string \<times> src) list"
  | SrcUnlistable exn
  | SrcSpecial

fun is_file :: "src \<Rightarrow> bool" where
  "is_file (SrcFile i) = True"
| "is_file _ = False"

fun is_dir :: "src \<Rightarrow> bool" where
  "is_dir (SrcDir cs) = True"
| "is_dir (SrcUnlistable e) = True"
| "is_dir _ = False"

fun file_id :: "src \<Rightarrow> ident" where
  "file_id (SrcFile i) = i"
| "file_id _ = (0, 0)"

fun iterdir :: "src \<Rightarrow> exn + (string \<times> src) list" where
  "iterdir (SrcDir cs) = Inr cs"
| "iterdir (SrcUnlistable e) = Inl e"
| "iterdir _ = Inl (OSError ENOTDIR)"

text \<open>
  The target side. A node is a regular file with its identity, a directory with the device
  it lives on and whether entries may be added to and removed from it, or anything else.
\<close>

datatype node = File ident | Dir nat bool | Other

type_synonym store = "path \<Rightarrow> node option"

definition path_exists :: "store \<Rightarrow> path \<Rightarrow> bool" where
  "path_exists st p = (st p \<noteq> None)"

definition target_is_dir :: "store \<Rightarrow> path \<Rightarrow> bool" where
  "target_is_dir st p = (case st p of Some (Dir d w) \<Rightarrow> True | _ \<Rightarrow> False)"

text \<open>\<open>source_file.samefile(target_file)\<close> for a source file of identity \<open>i\<close>.\<close>

definition samefile :: "ident \<Rightarrow> store \<Rightarrow> path \<Rightarrow> exn + bool" where
  "samefile i st p =
     (case st p of
        None \<Rightarrow> Inl (OSError ENOENT)
      | Some (File j) \<Rightarrow> Inr (i = j)
      | Some _ \<Rightarrow> Inr False)"

text \<open>
  The checks a system call makes on the directory that is to hold a new entry \<open>p\<close>:
  it exists, it is a directory, the entry is not there yet.
\<close>

definition parent_dir :: "store \<Rightarrow> path \<Rightarrow> exn + (nat \<times> bool)" where
  "parent_dir st p =
     (if p = [] then Inl (OSError (if st [] = None then ENOENT else EEXIST))
      else case st (butlast p) of
             None \<Rightarrow> Inl (OSError ENOENT)
           | Some (Dir d w) \<Rightarrow> (if st p \<noteq> None then Inl (OSError EEXIST) else Inr (d, w))
           | Some _ \<Rightarrow> Inl (OSError ENOTDIR))"

text \<open>\<open>os.link(source_file, target_file)\<close> for a source file of identity \<open>i\<close>.\<close>

definition os_link :: "ident \<Rightarrow> path \<Rightarrow> store \<Rightarrow> exn + store" where
  "os_link i p st =
     (case parent_dir st p of
        Inl e \<Rightarrow> Inl e
      | Inr (d, w) \<Rightarrow>
          if fst i \<noteq> d then Inl (OSError EXDEV)
          else if \<not> w then Inl (OSError EACCES)
          else Inr (st(p \<mapsto> File i)))"

text \<open>\<open>target_file.unlink()\<close>.\<close>

definition unlink :: "path \<Rightarrow> store \<Rightarrow> exn + store" where
  "unlink p st =
     (case st p of
        None \<Rightarrow> Inl (OSError ENOENT)
      | Some (Dir d w) \<Rightarrow> Inl (OSError EISDIR)
      | Some _ \<Rightarrow>
          (case st (butlast p) of
             Some (Dir d w) \<Rightarrow> if w then Inr (st(p := None)) else Inl (OSError EACCES)
           | _ \<Rightarrow> Inr (st(p := None))))"

text \<open>\<open>os.mkdir(p)\<close>: the new directory is on its parent's device.\<close>

definition os_mkdir :: "path \<Rightarrow> store \<Rightarrow> exn + store" where
  "os_mkdir p st =
     (case parent_dir st p of
        Inl e \<Rightarrow> Inl e
      | Inr (d, w) \<Rightarrow> if \<not> w then Inl (OSError EACCES) else Inr (st(p \<mapsto> Dir d True)))"

text \<open>
  \<open>Path.mkdir(parents, exist_ok=True)\<close> of the standard library: a missing parent is
  created first when \<open>parents\<close> is set, and any other error is dropped when the path is a
  directory already.
\<close>

function path_mkdir :: "bool \<Rightarrow> path \<Rightarrow> store \<Rightarrow> exn + store" where
  "path_mkdir parents p st =
     (case os_mkdir p st of
        Inr st' \<Rightarrow> Inr st'
      | Inl e \<Rightarrow>
          if e = OSError ENOENT then
            (if \<not> parents \<or> p = [] then Inl e
             else case path_mkdir True (butlast p) st of
                    Inl e' \<Rightarrow> Inl e'
                  | Inr st1 \<Rightarrow> path_mkdir False p st1)
          else if target_is_dir st p then Inr st
          else Inl e)"
  by pat_completeness auto
termination
  by (relation "measure (\<lambda>(parents, p, st). if parents then 2 * length p + 1 else 0)") auto

section \<open>The engine's state\<close>

record statistics =
  files_linked :: int
  dirs_created :: int
  errors :: int
  skipped :: int

datatype level = INFO | WARN | ERROR

text \<open>The diagnostics of the engine, one constructor for each message it formats.\<close>

datatype msg =
    SourceDoesNotExist path
  | SourceNotADirectory path
  | CreatedTargetDirectory path
  | ErrorDuringHardlinking exn
  | Excluding path
  | CreatedDirectory path
  | SkippingSpecialFile path
  | PermissionDenied exn
  | UnexpectedError exn
  | TargetExistsSkipping path
  | AlreadyHardlinked path
  | RemovedExistingFile path
  | Hardlinked path path
  | CannotHardlinkAcrossFilesystems path path
  | ErrorHardlinking path exn
  | UnexpectedErrorHardlinking path exn

text \<open>
  The flags of a \<open>DirectoryHardlinker\<close> are fixed at construction; its statistics, the
  lines printed so far and the target side of the file system change as it runs.
\<close>

record hardlinker =
  verbose :: bool
  dry_run :: bool

record state =
  stats :: statistics
  out :: "(level \<times> msg) list"
  tfs :: store

definition init_stats :: statistics where
  "init_stats = \<lparr>files_linked = 0, dirs_created = 0, errors = 0, skipped = 0\<rparr>"

text \<open>
  A statement either returns a value or raises, and leaves a state behind in both cases.
\<close>

type_synonym 'a io = "state \<Rightarrow> (exn + 'a) \<times> state"

definition io_return :: "'a \<Rightarrow> 'a io" where
  "io_return x = (\<lambda>s. (Inr x, s))"

definition io_raise :: "exn \<Rightarrow> 'a io" where
  "io_raise e = (\<lambda>s. (Inl e, s))"

definition io_bind :: "'a io \<Rightarrow> ('a \<Rightarrow> 'b io) \<Rightarrow> 'b io" where
  "io_bind m f = (\<lambda>s. case m s of (Inl e, s') \<Rightarrow> (Inl e, s') | (Inr x, s') \<Rightarrow> f x s')"

definition io_seq :: "unit io \<Rightarrow> 'b io \<Rightarrow> 'b io" where
  "io_seq m k = io_bind m (\<lambda>_. k)"

definition io_when :: "bool \<Rightarrow> unit io \<Rightarrow> unit io" where
  "io_when b m = (if b then m else io_return ())"

definition io_try :: "'a io \<Rightarrow> (exn \<Rightarrow> 'a io) \<Rightarrow> 'a io" where
  "io_try m h = (\<lambda>s. case m s of (Inl e, s') \<Rightarrow> h e s' | (Inr x, s') \<Rightarrow> (Inr x, s'))"

text \<open>A call that changes the target side, or raises and leaves it as it was.\<close>

definition io_fs :: "(store \<Rightarrow> exn + store) \<Rightarrow> unit io" where
  "io_fs f = (\<lambda>s. case f (tfs s) of Inl e \<Rightarrow> (Inl e, s) | Inr st \<Rightarrow> (Inr (), s\<lparr>tfs := st\<rparr>))"

text \<open>
  A call that only reads the target side. \<open>exists()\<close>, \<open>is_file()\<close> and \<open>is_dir()\<close>
  answer and never raise.
\<close>

definition io_read :: "(store \<Rightarrow> exn + 'a) \<Rightarrow> 'a io" where
  "io_read f = (\<lambda>s. case f (tfs s) of Inl e \<Rightarrow> (Inl e, s) | Inr x \<Rightarrow> (Inr x, s))"

definition io_exists :: "path \<Rightarrow> bool io" where
  "io_exists p = (\<lambda>s. (Inr (path_exists (tfs s) p), s))"

text \<open>\<open>log\<close> prints the line when \<open>verbose\<close> is set, and does nothing otherwise.\<close>

definition printed :: "hardlinker \<Rightarrow> msg \<Rightarrow> level \<Rightarrow> state \<Rightarrow> state" where
  "printed self message lvl s =
     (if verbose self then s\<lparr>out := out s @ [(lvl, message)]\<rparr> else s)"

definition log :: "hardlinker \<Rightarrow> msg \<Rightarrow> level \<Rightarrow> unit io" where
  "log self message lvl = (\<lambda>s. (Inr (), printed self message lvl s))"

text \<open>The four statements \<open>self.stats[...] += 1\<close>.\<close>

definition one_linked :: "statistics \<Rightarrow> statistics" where
  "one_linked c = c\<lparr>files_linked := files_linked c + 1\<rparr>"

definition one_created :: "statistics \<Rightarrow> statistics" where
  "one_created c = c\<lparr>dirs_created := dirs_created c + 1\<rparr>"

definition one_error :: "statistics \<Rightarrow> statistics" where
  "one_error c = c\<lparr>errors := errors c + 1\<rparr>"

definition one_skipped :: "statistics \<Rightarrow> statistics" where
  "one_skipped c = c\<lparr>skipped := skipped c + 1\<rparr>"

definition counted :: "(statistics \<Rightarrow> statistics) \<Rightarrow> state \<Rightarrow> state" where
  "counted f s = s\<lparr>stats := f (stats s)\<rparr>"

definition count_files_linked :: "unit io" where
  "count_files_linked = (\<lambda>s. (Inr (), counted one_linked s))"

definition count_dirs_created :: "unit io" where
  "count_dirs_created = (\<lambda>s. (Inr (), counted one_created s))"

definition count_errors :: "unit io" where
  "count_errors = (\<lambda>s. (Inr (), counted one_error s))"

definition count_skipped :: "unit io" where
  "count_skipped = (\<lambda>s. (Inr (), counted one_skipped s))"

section \<open>The engine\<close>

text \<open>
  \<open>_should_exclude\<close>. The glob matcher \<open>fnmatch.fnmatch\<close> belongs to the standard library
  and is a parameter \<open>fnmatch name pattern\<close> of the model.
\<close>

fun any_match :: "(string \<Rightarrow> string \<Rightarrow> bool) \<Rightarrow> path \<Rightarrow> string list \<Rightarrow> bool" where
  "any_match fnmatch p [] = False"
| "any_match fnmatch p (pattern # rest) =
     (if fnmatch (path_str p) pattern \<or> fnmatch (path_name p) pattern then True
      else any_match fnmatch p rest)"

definition should_exclude ::
  "(string \<Rightarrow> string \<Rightarrow> bool) \<Rightarrow> path \<Rightarrow> string list option \<Rightarrow> bool" where
  "should_exclude fnmatch p exclude_patterns =
     (case exclude_patterns of
        None \<Rightarrow> False
      | Some pats \<Rightarrow> if pats = [] then False else any_match fnmatch p pats)"

text \<open>
  \<open>_hardlink_file\<close>, lines 151 to 157: create the link and count it.
\<close>

definition create_the_hardlink :: "hardlinker \<Rightarrow> path \<Rightarrow> ident \<Rightarrow> path \<Rightarrow> bool io" where
  "create_the_hardlink self source_file i target_file =
     io_seq (io_when (\<not> dry_run self) (io_fs (os_link i target_file)))
    (io_seq (log self (Hardlinked source_file target_file) INFO)
    (io_seq count_files_linked
            (io_return True)))"

text \<open>\<open>_hardlink_file\<close>, the body of its \<open>try\<close>.\<close>

definition hardlink_file_body ::
  "hardlinker \<Rightarrow> path \<Rightarrow> ident \<Rightarrow> path \<Rightarrow> bool \<Rightarrow> bool io" where
  "hardlink_file_body self source_file i target_file overwrite =
     io_bind (io_exists target_file) (\<lambda>ex.
       if ex then
         if \<not> overwrite then
           io_seq (log self (TargetExistsSkipping target_file) WARN)
          (io_seq count_skipped
                  (io_return True))
         else
           io_bind (io_read (\<lambda>st. samefile i st target_file)) (\<lambda>same.
             if same then
               io_seq (log self (AlreadyHardlinked target_file) INFO)
              (io_seq count_skipped
                      (io_return True))
             else
               io_seq (io_when (\<not> dry_run self) (io_fs (unlink target_file)))
              (io_seq (log self (RemovedExistingFile target_file) INFO)
                      (create_the_hardlink self source_file i target_file)))
       else create_the_hardlink self source_file i target_file)"

text \<open>\<open>_hardlink_file\<close>, its two handlers.\<close>

definition hardlink_file_except :: "hardlinker \<Rightarrow> path \<Rightarrow> path \<Rightarrow> exn \<Rightarrow> bool io" where
  "hardlink_file_except self source_file target_file e =
     (case e of
        OSError n \<Rightarrow>
          io_seq (if n = 18
                  then log self (CannotHardlinkAcrossFilesystems source_file target_file) ERROR
                  else log self (ErrorHardlinking source_file e) ERROR)
         (io_seq count_errors
                 (io_return False))
      | OtherException \<Rightarrow>
          io_seq (log self (UnexpectedErrorHardlinking source_file e) ERROR)
         (io_seq count_errors
                 (io_return False)))"

definition hardlink_file :: "hardlinker \<Rightarrow> path \<Rightarrow> ident \<Rightarrow> path \<Rightarrow> bool \<Rightarrow> bool io" where
  "hardlink_file self source_file i target_file overwrite =
     io_try (hardlink_file_body self source_file i target_file overwrite)
            (hardlink_file_except self source_file target_file)"

text \<open>\<open>_hardlink_recursive\<close>, its two handlers: they differ in the message only.\<close>

definition hardlink_recursive_except :: "hardlinker \<Rightarrow> exn \<Rightarrow> bool io" where
  "hardlink_recursive_except self e =
     io_seq (if is_PermissionError e
             then log self (PermissionDenied e) ERROR
             else log self (UnexpectedError e) ERROR)
    (io_seq count_errors
            (io_return False))"

text \<open>
  \<open>_hardlink_recursive\<close> and the loop over the entries of \<open>source.iterdir()\<close>, which
  carries the local variable \<open>success\<close>. The \<open>try\<close> encloses the whole loop.
\<close>

function (sequential)
  hardlink_recursive ::
    "hardlinker \<Rightarrow> (string \<Rightarrow> string \<Rightarrow> bool) \<Rightarrow> path \<Rightarrow> src \<Rightarrow> path \<Rightarrow> bool \<Rightarrow>
     string list option \<Rightarrow> bool io"
and
  hardlink_items ::
    "hardlinker \<Rightarrow> (string \<Rightarrow> string \<Rightarrow> bool) \<Rightarrow> path \<Rightarrow> (string \<times> src) list \<Rightarrow> path \<Rightarrow> bool \<Rightarrow>
     string list option \<Rightarrow> bool \<Rightarrow> bool io"
where
  "hardlink_recursive self fnmatch source dir target overwrite exclude_patterns =
     io_try
       (case iterdir dir of
          Inl e \<Rightarrow> io_raise e
        | Inr items \<Rightarrow>
            hardlink_items self fnmatch source items target overwrite exclude_patterns True)
       (hardlink_recursive_except self)"
| "hardlink_items self fnmatch source [] target overwrite exclude_patterns success =
     io_return success"
| "hardlink_items self fnmatch source ((name, item) # rest) target overwrite exclude_patterns
      success =
     (if should_exclude fnmatch (source @ [name]) exclude_patterns then
        io_seq (log self (Excluding (source @ [name])) INFO)
       (io_seq count_skipped
               (hardlink_items self fnmatch source rest target overwrite exclude_patterns
                  success))
      else if is_file item then
        io_bind (hardlink_file self (source @ [name]) (file_id item) (target @ [name]) overwrite)
          (\<lambda>r. hardlink_items self fnmatch source rest target overwrite exclude_patterns
                 (success \<and> r))
      else if is_dir item then
        io_bind (io_exists (target @ [name])) (\<lambda>ex.
          io_seq (io_when (\<not> ex)
                    (io_seq (io_when (\<not> dry_run self)
                               (io_fs (path_mkdir True (target @ [name]))))
                    (io_seq (log self (CreatedDirectory (target @ [name])) INFO)
                            count_dirs_created)))
         (io_bind (hardlink_recursive self fnmatch (source @ [name]) item (target @ [name])
                     overwrite exclude_patterns)
            (\<lambda>r. hardlink_items self fnmatch source rest target overwrite exclude_patterns
                   (success \<and> r))))
      else
        io_seq (log self (SkippingSpecialFile (source @ [name])) WARN)
       (io_seq count_skipped
               (hardlink_items self fnmatch source rest target overwrite exclude_patterns
                  success)))"
  by pat_completeness auto

termination
  by (relation "measure (\<lambda>x. case x of
         Inl (self, fnmatch, source, dir, rest) \<Rightarrow> size dir
       | Inr (self, fnmatch, source, items, rest) \<Rightarrow> size_list (size_prod (\<lambda>_. 0) size) items)")
     (auto elim!: iterdir.elims)

text \<open>
  \<open>hardlink_directory\<close>. The source is given by its path and by what is there:
  \<open>None\<close> when nothing is.
\<close>

definition hardlink_directory ::
  "hardlinker \<Rightarrow> (string \<Rightarrow> string \<Rightarrow> bool) \<Rightarrow> path \<Rightarrow> src option \<Rightarrow> path \<Rightarrow> bool \<Rightarrow>
   string list option \<Rightarrow> bool io" where
  "hardlink_directory self fnmatch source src target overwrite exclude_patterns =
     (case src of
        None \<Rightarrow>
          io_seq (log self (SourceDoesNotExist source) ERROR)
                 (io_return False)
      | Some dir \<Rightarrow>
          if \<not> is_dir dir then
            io_seq (log self (SourceNotADirectory source) ERROR)
                   (io_return False)
          else
            io_bind (io_exists target) (\<lambda>ex.
              io_seq (io_when (\<not> ex)
                        (io_seq (io_when (\<not> dry_run self) (io_fs (path_mkdir True target)))
                        (io_seq (log self (CreatedTargetDirectory target) INFO)
                                count_dirs_created)))
                     (io_try
                        (hardlink_recursive self fnmatch source dir target overwrite
                           exclude_patterns)
                        (\<lambda>e. io_seq (log self (ErrorDuringHardlinking e) ERROR)
                                    (io_return False)))))"

section \<open>Auxiliary notions and example inputs\<close>

text \<open>
  Whether \<open>_hardlink_file\<close> goes on to create a link, given what is at the target path:
  it does when nothing is there, and when \<open>overwrite\<close> is set and what is there is not
  the source file itself.
\<close>

definition relinks :: "bool \<Rightarrow> ident \<Rightarrow> node option \<Rightarrow> bool" where
  "relinks overwrite i n = (case n of None \<Rightarrow> True | Some m \<Rightarrow> overwrite \<and> m \<noteq> File i)"

text \<open>The entries of a directory have different names, at every level of a source tree.\<close>

fun distinct_names :: "src \<Rightarrow> bool"
  and distinct_entries :: "(string \<times> src) list \<Rightarrow> bool" where
  "distinct_names (SrcDir items) = distinct_entries items"
| "distinct_names _ = True"
| "distinct_entries [] = True"
| "distinct_entries ((name, item) # rest) =
     (name \<notin> fst ` set rest \<and> distinct_names item \<and> distinct_entries rest)"

text \<open>A new engine on a given target side: all counters zero, nothing printed.\<close>

definition fresh :: "store \<Rightarrow> state" where
  "fresh st = \<lparr>stats = init_stats, out = [], tfs = st\<rparr>"


definition other_device :: store where
  "other_device = [[] \<mapsto> Dir 1 True, [''t''] \<mapsto> Dir 2 True]"

definition no_target :: store where
  "no_target = [[] \<mapsto> Dir 1 True]"

definition read_only_root :: store where
  "read_only_root = [[] \<mapsto> Dir 1 False]"


text \<open>A source tree: two files and a subdirectory holding a third.\<close>

definition small_tree :: src where
  "small_tree =
     SrcDir [(''a'', SrcFile (1, 10)), (''d'', SrcDir [(''b'', SrcFile (1, 11))]),
             (''c'', SrcFile (1, 12))]"

section \<open>Running the statements\<close>

declare path_mkdir.simps [simp del]
declare hardlink_recursive.simps [simp del]
declare hardlink_items.simps [simp del]

lemma printed_simps [simp]:
  "stats (printed self m l s) = stats s"
  "tfs (printed self m l s) = tfs s"
  "out (printed self m l s) = out s @ (if verbose self then [(l, m)] else [])"
  by (simp_all add: printed_def)

lemma counted_simps [simp]:
  "stats (counted f s) = f (stats s)"
  "tfs (counted f s) = tfs s"
  "out (counted f s) = out s"
  by (simp_all add: counted_def)

lemma io_return_run [simp]: "io_return x s = (Inr x, s)"
  by (simp add: io_return_def)

lemma io_raise_run [simp]: "io_raise e s = (Inl e, s)"
  by (simp add: io_raise_def)

lemma io_seq_log [simp]: "io_seq (log self m l) k s = k (printed self m l s)"
  by (simp add: io_seq_def io_bind_def log_def)

lemma io_seq_count [simp]:
  "io_seq count_files_linked k s = k (counted one_linked s)"
  "io_seq count_dirs_created k s = k (counted one_created s)"
  "io_seq count_errors k s = k (counted one_error s)"
  "io_seq count_skipped k s = k (counted one_skipped s)"
  by (simp_all add: io_seq_def io_bind_def count_files_linked_def count_dirs_created_def
      count_errors_def count_skipped_def)

lemma io_seq_fs:
  "io_seq (io_fs f) k s =
     (case f (tfs s) of Inl e \<Rightarrow> (Inl e, s) | Inr st \<Rightarrow> k (s\<lparr>tfs := st\<rparr>))"
  by (simp add: io_seq_def io_bind_def io_fs_def split: sum.splits)

lemma io_seq_when_fs:
  "io_seq (io_when b (io_fs f)) k s =
     (if b then (case f (tfs s) of Inl e \<Rightarrow> (Inl e, s) | Inr st \<Rightarrow> k (s\<lparr>tfs := st\<rparr>))
      else k s)"
  by (simp add: io_when_def io_seq_fs) (simp add: io_seq_def io_bind_def)

lemma io_bind_exists [simp]: "io_bind (io_exists p) f s = f (path_exists (tfs s) p) s"
  by (simp add: io_bind_def io_exists_def)

lemma io_bind_read:
  "io_bind (io_read g) f s = (case g (tfs s) of Inl e \<Rightarrow> (Inl e, s) | Inr x \<Rightarrow> f x s)"
  by (simp add: io_bind_def io_read_def split: sum.splits)

lemma io_try_run:
  "io_try m h s = (case m s of (Inl e, s') \<Rightarrow> h e s' | (Inr x, s') \<Rightarrow> (Inr x, s'))"
  by (simp add: io_try_def)

lemma create_the_hardlink_run:
  "create_the_hardlink self sf i tf s =
     (if dry_run self then (Inr True, counted one_linked (printed self (Hardlinked sf tf) INFO s))
      else case os_link i tf (tfs s) of
             Inl e \<Rightarrow> (Inl e, s)
           | Inr st \<Rightarrow>
               (Inr True, counted one_linked (printed self (Hardlinked sf tf) INFO (s\<lparr>tfs := st\<rparr>))))"
  by (simp add: create_the_hardlink_def io_seq_when_fs split: sum.splits)

lemma hardlink_file_except_run:
  "hardlink_file_except self sf tf e s =
     (Inr False, counted one_error (printed self
        (case e of OSError n \<Rightarrow> if n = 18 then CannotHardlinkAcrossFilesystems sf tf
                                 else ErrorHardlinking sf e
         | OtherException \<Rightarrow> UnexpectedErrorHardlinking sf e) ERROR s))"
  by (simp add: hardlink_file_except_def split: exn.splits)

text \<open>What the body of the try does, by the state of the target.\<close>

lemma body_absent:
  "tfs s tf = None \<Longrightarrow>
   hardlink_file_body self sf i tf ow s = create_the_hardlink self sf i tf s"
  by (simp add: hardlink_file_body_def path_exists_def)

lemma body_keep:
  "tfs s tf = Some n \<Longrightarrow> \<not> ow \<Longrightarrow>
   hardlink_file_body self sf i tf ow s =
     (Inr True, counted one_skipped (printed self (TargetExistsSkipping tf) WARN s))"
  by (simp add: hardlink_file_body_def path_exists_def)

lemma body_same:
  "tfs s tf = Some (File i) \<Longrightarrow> ow \<Longrightarrow>
   hardlink_file_body self sf i tf ow s =
     (Inr True, counted one_skipped (printed self (AlreadyHardlinked tf) INFO s))"
  by (simp add: hardlink_file_body_def path_exists_def io_bind_read samefile_def)

lemma body_replace:
  "tfs s tf = Some n \<Longrightarrow> n \<noteq> File i \<Longrightarrow> ow \<Longrightarrow>
   hardlink_file_body self sf i tf ow s =
     (if dry_run self
      then create_the_hardlink self sf i tf (printed self (RemovedExistingFile tf) INFO s)
      else case unlink tf (tfs s) of
             Inl e \<Rightarrow> (Inl e, s)
           | Inr st \<Rightarrow>
               create_the_hardlink self sf i tf
                 (printed self (RemovedExistingFile tf) INFO (s\<lparr>tfs := st\<rparr>)))"
  by (cases n) (simp_all add: hardlink_file_body_def path_exists_def io_bind_read samefile_def
      io_seq_when_fs split: sum.splits)

lemma hardlink_file_cases:
  obtains
    (linked) "fst (hardlink_file self sf i tf ow s) = Inr True"
      and "stats (snd (hardlink_file self sf i tf ow s)) = one_linked (stats s)"
  | (skipped) "fst (hardlink_file self sf i tf ow s) = Inr True"
      and "stats (snd (hardlink_file self sf i tf ow s)) = one_skipped (stats s)"
      and "tfs (snd (hardlink_file self sf i tf ow s)) = tfs s"
  | (failed) "fst (hardlink_file self sf i tf ow s) = Inr False"
      and "stats (snd (hardlink_file self sf i tf ow s)) = one_error (stats s)"
proof -
  consider (absent) "tfs s tf = None"
    | (keep) n where "tfs s tf = Some n" "\<not> ow"
    | (same) "tfs s tf = Some (File i)" "ow"
    | (replace) n where "tfs s tf = Some n" "n \<noteq> File i" "ow"
    by (cases "tfs s tf") auto
  then show thesis
  proof cases
    case absent
    show thesis
    proof (cases "dry_run self")
      case True
      with absent show thesis
        by (intro linked) (simp_all add: hardlink_file_def io_try_run body_absent create_the_hardlink_run)
    next
      case False
      show thesis
      proof (cases "os_link i tf (tfs s)")
        case (Inl e)
        with absent False show thesis
          by (intro failed)
            (simp_all add: hardlink_file_def io_try_run body_absent create_the_hardlink_run
              hardlink_file_except_run)
      next
        case (Inr st)
        with absent False show thesis
          by (intro linked)
            (simp_all add: hardlink_file_def io_try_run body_absent create_the_hardlink_run)
      qed
    qed
  next
    case keep
    then show thesis
      by (intro skipped) (simp_all add: hardlink_file_def io_try_run body_keep)
  next
    case same
    then show thesis
      by (intro skipped) (simp_all add: hardlink_file_def io_try_run body_same)
  next
    case replace
    show thesis
    proof (cases "dry_run self")
      case True
      with replace show thesis
        by (intro linked)
          (simp_all add: hardlink_file_def io_try_run body_replace create_the_hardlink_run)
    next
      case False
      show thesis
      proof (cases "unlink tf (tfs s)")
        case (Inl e)
        with replace False show thesis
          by (intro failed)
            (simp_all add: hardlink_file_def io_try_run body_replace hardlink_file_except_run)
      next
        case (Inr st)
        show thesis
        proof (cases "os_link i tf st")
          case (Inl e)
          with Inr replace False show thesis
            by (intro failed)
              (simp_all add: hardlink_file_def io_try_run body_replace create_the_hardlink_run
                hardlink_file_except_run)
        next
          case (Inr st2)
          with \<open>unlink tf (tfs s) = Inr st\<close> replace False show thesis
            by (intro linked)
              (simp_all add: hardlink_file_def io_try_run body_replace create_the_hardlink_run)
        qed
      qed
    qed
  qed
qed



lemma hardlink_file_returns:
  obtains b s1 where "hardlink_file self sf i tf ow s = (Inr b, s1)"
  by (cases rule: hardlink_file_cases [of self sf i tf ow s];
      cases "hardlink_file self sf i tf ow s") auto

lemma hardlink_recursive_except_run:
  "hardlink_recursive_except self e s =
     (Inr False, counted one_error (printed self
        (if is_PermissionError e then PermissionDenied e else UnexpectedError e) ERROR s))"
  by (simp add: hardlink_recursive_except_def)

lemma hardlink_recursive_run:
  "hardlink_recursive self fnmatch source dir target ow pats s =
     (case iterdir dir of
        Inl e \<Rightarrow> hardlink_recursive_except self e s
      | Inr items \<Rightarrow>
          (case hardlink_items self fnmatch source items target ow pats True s of
             (Inl e, s1) \<Rightarrow> hardlink_recursive_except self e s1
           | (Inr b, s1) \<Rightarrow> (Inr b, s1)))"
  by (simp add: hardlink_recursive.simps io_try_run split: sum.splits)

lemma hardlink_recursive_never_raises:
  "\<exists>b. fst (hardlink_recursive self fnmatch source dir target ow pats s) = Inr b"
  by (auto simp: hardlink_recursive_run hardlink_recursive_except_run
      split: sum.splits prod.splits)

lemma hardlink_recursive_returns:
  obtains b s1 where "hardlink_recursive self fnmatch source dir target ow pats s = (Inr b, s1)"
  using hardlink_recursive_never_raises [of self fnmatch source dir target ow pats s]
  by (cases "hardlink_recursive self fnmatch source dir target ow pats s") auto

lemma io_seq_assoc: "io_seq (io_seq a b) k = io_seq a (io_seq b k)"
  by (auto simp: io_seq_def io_bind_def split: prod.splits sum.splits)

lemma io_seq_when: "io_seq (io_when b m) k s = (if b then io_seq m k s else k s)"
  by (simp add: io_when_def io_seq_def io_bind_def)

lemma io_bind_returns: "m s = (Inr x, s1) \<Longrightarrow> io_bind m f s = f x s1"
  by (simp add: io_bind_def)

lemma io_bind_raises: "m s = (Inl e, s1) \<Longrightarrow> io_bind m f s = (Inl e, s1)"
  by (simp add: io_bind_def)

lemma items_nil [simp]:
  "hardlink_items self fnmatch source [] target ow pats success s = (Inr success, s)"
  by (simp add: hardlink_items.simps)

lemma items_excluded:
  "should_exclude fnmatch (source @ [name]) pats \<Longrightarrow>
   hardlink_items self fnmatch source ((name, item) # rest) target ow pats success s =
   hardlink_items self fnmatch source rest target ow pats success
     (counted one_skipped (printed self (Excluding (source @ [name])) INFO s))"
  by (simp add: hardlink_items.simps)

lemma items_file:
  "\<not> should_exclude fnmatch (source @ [name]) pats \<Longrightarrow> is_file item \<Longrightarrow>
   hardlink_file self (source @ [name]) (file_id item) (target @ [name]) ow s = (Inr r, s1) \<Longrightarrow>
   hardlink_items self fnmatch source ((name, item) # rest) target ow pats success s =
   hardlink_items self fnmatch source rest target ow pats (success \<and> r) s1"
  by (simp add: hardlink_items.simps io_bind_def)

lemma items_special:
  "\<not> should_exclude fnmatch (source @ [name]) pats \<Longrightarrow> \<not> is_file item \<Longrightarrow> \<not> is_dir item \<Longrightarrow>
   hardlink_items self fnmatch source ((name, item) # rest) target ow pats success s =
   hardlink_items self fnmatch source rest target ow pats success
     (counted one_skipped (printed self (SkippingSpecialFile (source @ [name])) WARN s))"
  by (simp add: hardlink_items.simps)

text \<open>The state in which the walk enters a subdirectory, when creating it did not raise.\<close>

lemma items_dir_raise:
  "\<not> should_exclude fnmatch (source @ [name]) pats \<Longrightarrow> \<not> is_file item \<Longrightarrow> is_dir item \<Longrightarrow>
   \<not> path_exists (tfs s) (target @ [name]) \<Longrightarrow> \<not> dry_run self \<Longrightarrow>
   path_mkdir True (target @ [name]) (tfs s) = Inl e \<Longrightarrow>
   hardlink_items self fnmatch source ((name, item) # rest) target ow pats success s = (Inl e, s)"
  by (simp add: hardlink_items.simps io_seq_when io_seq_assoc io_seq_fs)

lemma items_dir_enter:
  "\<not> should_exclude fnmatch (source @ [name]) pats \<Longrightarrow> \<not> is_file item \<Longrightarrow> is_dir item \<Longrightarrow>
   s1 = (if path_exists (tfs s) (target @ [name]) then s
         else counted one_created (printed self (CreatedDirectory (target @ [name])) INFO
                (if dry_run self then s else s\<lparr>tfs := st\<rparr>))) \<Longrightarrow>
   path_exists (tfs s) (target @ [name]) \<or> dry_run self \<or>
     path_mkdir True (target @ [name]) (tfs s) = Inr st \<Longrightarrow>
   hardlink_recursive self fnmatch (source @ [name]) item (target @ [name]) ow pats s1 = (Inr r, s2) \<Longrightarrow>
   hardlink_items self fnmatch source ((name, item) # rest) target ow pats success s =
   hardlink_items self fnmatch source rest target ow pats (success \<and> r) s2"
  by (auto simp add: hardlink_items.simps io_seq_when io_seq_assoc io_seq_fs
      io_bind_returns)

lemma os_link_result: "os_link i p st = Inr st' \<Longrightarrow> st' = st(p \<mapsto> File i)"
  by (auto simp: os_link_def split: sum.splits prod.splits if_splits)

lemma unlink_result: "unlink p st = Inr st' \<Longrightarrow> st' = st(p := None)"
  by (auto simp: unlink_def split: option.splits node.splits if_splits)

lemma os_mkdir_result: "os_mkdir p st = Inr st' \<Longrightarrow> st p = None \<and> (\<exists>d. st' = st(p \<mapsto> Dir d True))"
  by (auto simp: os_mkdir_def parent_dir_def split: sum.splits prod.splits if_splits option.splits node.splits)

section \<open>The single-file link operation\<close>






section \<open>The precondition on the source\<close>



section \<open>Exclusion\<close>




section \<open>Dry runs\<close>

lemma target_cases:
  obtains (absent) "tfs s tf = None"
    | (keep) n where "tfs s tf = Some n" "\<not> ow"
    | (same) "tfs s tf = Some (File i)" "ow"
    | (replace) n where "tfs s tf = Some n" "n \<noteq> File i" "ow"
  by (cases "tfs s tf") auto

lemma hardlink_file_dry:
  assumes "dry_run self"
  shows "fst (hardlink_file self sf i tf ow s) = Inr True"
    and "tfs (snd (hardlink_file self sf i tf ow s)) = tfs s"
    and "stats (snd (hardlink_file self sf i tf ow s)) =
           (if relinks ow i (tfs s tf) then one_linked (stats s) else one_skipped (stats s))"
  using assms
  by (cases rule: target_cases [where s = s and tf = tf and ow = ow and i = i];
      simp add: hardlink_file_def io_try_run body_absent body_keep body_same body_replace
        create_the_hardlink_run relinks_def)+

lemma hardlink_file_real:
  assumes "\<not> dry_run self" and "hardlink_file self sf i tf ow s = (Inr True, s1)"
  shows "tfs s1 = (if relinks ow i (tfs s tf) then (tfs s)(tf \<mapsto> File i) else tfs s)"
    and "stats s1 =
           (if relinks ow i (tfs s tf) then one_linked (stats s) else one_skipped (stats s))"
proof -
  have "tfs s1 = (if relinks ow i (tfs s tf) then (tfs s)(tf \<mapsto> File i) else tfs s) \<and>
     stats s1 = (if relinks ow i (tfs s tf) then one_linked (stats s) else one_skipped (stats s))"
  proof (cases rule: target_cases [where s = s and tf = tf and ow = ow and i = i])
    case absent
    with assms show ?thesis
      by (auto simp: hardlink_file_def io_try_run body_absent create_the_hardlink_run relinks_def
          hardlink_file_except_run split: sum.splits dest: os_link_result)
  next
    case keep
    with assms show ?thesis
      by (auto simp: hardlink_file_def io_try_run body_keep relinks_def)
  next
    case same
    with assms show ?thesis
      by (auto simp: hardlink_file_def io_try_run body_same relinks_def)
  next
    case replace
    from assms show ?thesis
      unfolding hardlink_file_def io_try_run body_replace [OF replace]
      using replace
      by (auto simp: create_the_hardlink_run relinks_def hardlink_file_except_run
          split: sum.splits dest!: os_link_result unlink_result)
  qed
  then show "tfs s1 = (if relinks ow i (tfs s tf) then (tfs s)(tf \<mapsto> File i) else tfs s)"
    and "stats s1 =
           (if relinks ow i (tfs s tf) then one_linked (stats s) else one_skipped (stats s))"
    by simp_all
qed

lemma dry_run_frame:
  "dry_run self \<Longrightarrow>
     tfs (snd (hardlink_recursive self fnmatch source dir target ow pats s)) = tfs s"
  "dry_run self \<Longrightarrow>
     tfs (snd (hardlink_items self fnmatch source items target ow pats success s)) = tfs s"
proof (induction self fnmatch source dir target ow pats
    and self fnmatch source items target ow pats success
    arbitrary: s and s rule: hardlink_recursive_hardlink_items.induct)
  case (1 self fnmatch source dir target overwrite exclude_patterns)
  show ?case
  proof (cases "iterdir dir")
    case (Inl e)
    then show ?thesis
      by (simp add: hardlink_recursive_run hardlink_recursive_except_run)
  next
    case (Inr items)
    from 1(1) [OF Inr 1(2), of s] Inr show ?thesis
      by (auto simp: hardlink_recursive_run hardlink_recursive_except_run
          split: prod.splits sum.splits)
  qed
next
  case (2 self fnmatch source target overwrite exclude_patterns success)
  show ?case by simp
next
  case (3 self fnmatch source name item rest target overwrite exclude_patterns success)
  note dry = \<open>dry_run self\<close>
  consider (excluded) "should_exclude fnmatch (source @ [name]) exclude_patterns"
    | (regular) "\<not> should_exclude fnmatch (source @ [name]) exclude_patterns" "is_file item"
    | (directory) "\<not> should_exclude fnmatch (source @ [name]) exclude_patterns" "\<not> is_file item"
        "is_dir item"
    | (special) "\<not> should_exclude fnmatch (source @ [name]) exclude_patterns" "\<not> is_file item"
        "\<not> is_dir item"
    by blast
  then show ?case
  proof cases
    case excluded
    with 3(1) [OF excluded dry] show ?thesis
      by (simp add: items_excluded)
  next
    case regular
    obtain r s1 where run:
      "hardlink_file self (source @ [name]) (file_id item) (target @ [name]) overwrite s = (Inr r, s1)"
      by (rule hardlink_file_returns)
    with hardlink_file_dry(2) [OF dry, of "source @ [name]" "file_id item" "target @ [name]"
        overwrite s]
    have "tfs s1 = tfs s" by simp
    with 3(2) [OF regular dry, of r s1] show ?thesis
      by (simp add: items_file [OF regular run])
  next
    case directory
    let ?s1 = "if path_exists (tfs s) (target @ [name]) then s
         else counted one_created (printed self (CreatedDirectory (target @ [name])) INFO
                (if dry_run self then s else s\<lparr>tfs := tfs s\<rparr>))"
    obtain r s2 where run:
      "hardlink_recursive self fnmatch (source @ [name]) item (target @ [name]) overwrite
         exclude_patterns ?s1 = (Inr r, s2)"
      by (rule hardlink_recursive_returns)
    from 3(3) [OF directory dry, of ?s1] run dry have "tfs s2 = tfs s"
      by (simp split: if_splits)
    with 3(4) [OF directory dry, of r s2] dry show ?thesis
      by (simp add: items_dir_enter [OF directory refl _ run])
  next
    case special
    with 3(5) [OF special dry] show ?thesis
      by (simp add: items_special)
  qed
qed

text \<open>
  Claim C8. With \<open>dry_run\<close> set, an invocation leaves the target side of the file system
  exactly as it was, for every source, target, flag and pattern list.
\<close>

theorem dry_run_changes_nothing:
  assumes "dry_run self"
  shows "tfs (snd (hardlink_directory self fnmatch source src target overwrite pats s)) = tfs s"
proof (cases "\<exists>dir. src = Some dir \<and> is_dir dir")
  case False
  then show ?thesis
    by (cases src) (auto simp: hardlink_directory_def)
next
  case True
  then obtain dir where dir: "src = Some dir" "is_dir dir"
    by blast
  obtain r s2 where run:
    "hardlink_recursive self fnmatch source dir target overwrite pats
       (if path_exists (tfs s) target then s
        else counted one_created (printed self (CreatedTargetDirectory target) INFO s)) = (Inr r, s2)"
    by (rule hardlink_recursive_returns)
  with dry_run_frame(1) [OF assms, of fnmatch source dir target overwrite pats
      "if path_exists (tfs s) target then s
        else counted one_created (printed self (CreatedTargetDirectory target) INFO s)"]
  have "tfs s2 = tfs s"
    by (simp split: if_splits)
  with dir assms run show ?thesis
    by (auto simp: hardlink_directory_def io_seq_when io_seq_assoc io_try_run)
qed

text \<open>A dry run of the small tree into a target that does not exist yet.\<close>

theorem dry_run_changes_nothing_witness:
  "(let r = hardlink_directory \<lparr>verbose = False, dry_run = True\<rparr> (=) [''s''] (Some small_tree)
              [''t''] True None (fresh no_target)
    in tfs (snd r) = no_target \<and>
       stats (snd r) = \<lparr>files_linked = 3, dirs_created = 2, errors = 0, skipped = 0\<rparr>)"
proof -
  have "stats (snd (hardlink_directory \<lparr>verbose = False, dry_run = True\<rparr> (=) [''s'']
      (Some small_tree) [''t''] True None (fresh no_target))) =
      \<lparr>files_linked = 3, dirs_created = 2, errors = 0, skipped = 0\<rparr>"
    by code_simp
  with dry_run_changes_nothing [of "\<lparr>verbose = False, dry_run = True\<rparr>" "(=)" "[''s'']"
      "Some small_tree" "[''t'']" True None "fresh no_target"]
  show ?thesis by (simp add: fresh_def Let_def)
qed

section \<open>Errors that leave the engine\<close>

text \<open>
  Claim C9 does not hold of the code. The target directory is created before the \<open>try\<close>
  of \<open>hardlink_directory\<close> begins, so an error of that \<open>mkdir\<close> is raised to the caller:
  here the target is to be created under a root that cannot be written.
\<close>

theorem top_level_mkdir_raises:
  "fst (hardlink_directory \<lparr>verbose = False, dry_run = False\<rparr> (=) [''s''] (Some small_tree)
          [''t''] False None (fresh read_only_root)) = Inl (OSError EACCES)"
  by code_simp

section \<open>Cross-device failures\<close>




section \<open>The walk and its result\<close>

text \<open>What the loop does with its first entry, for any remaining entries and any flag.\<close>

lemma entry_cases:
  obtains
    (excluded) "should_exclude fnmatch (source @ [name]) pats"
  | (regular) r s1 where "\<not> should_exclude fnmatch (source @ [name]) pats" "is_file item"
      "hardlink_file self (source @ [name]) (file_id item) (target @ [name]) ow s = (Inr r, s1)"
  | (raised) e where "\<not> should_exclude fnmatch (source @ [name]) pats" "\<not> is_file item"
      "is_dir item" "\<not> path_exists (tfs s) (target @ [name])" "\<not> dry_run self"
      "path_mkdir True (target @ [name]) (tfs s) = Inl e"
  | (entered) st r s2 where "\<not> should_exclude fnmatch (source @ [name]) pats" "\<not> is_file item"
      "is_dir item"
      "path_exists (tfs s) (target @ [name]) \<or> dry_run self \<or>
         path_mkdir True (target @ [name]) (tfs s) = Inr st"
      "hardlink_recursive self fnmatch (source @ [name]) item (target @ [name]) ow pats
         (if path_exists (tfs s) (target @ [name]) then s
          else counted one_created (printed self (CreatedDirectory (target @ [name])) INFO
                 (if dry_run self then s else s\<lparr>tfs := st\<rparr>))) = (Inr r, s2)"
  | (special) "\<not> should_exclude fnmatch (source @ [name]) pats" "\<not> is_file item"
      "\<not> is_dir item"
proof (cases "should_exclude fnmatch (source @ [name]) pats")
  case True
  then show thesis by (rule excluded)
next
  case visited: False
  show thesis
  proof (cases "is_file item")
    case True
    obtain r s1 where
      "hardlink_file self (source @ [name]) (file_id item) (target @ [name]) ow s = (Inr r, s1)"
      by (rule hardlink_file_returns)
    with visited True show thesis by (rule regular)
  next
    case nofile: False
    show thesis
    proof (cases "is_dir item")
      case False
      with visited nofile show thesis by (rule special)
    next
      case True
      show thesis
      proof (cases "path_exists (tfs s) (target @ [name]) \<or> dry_run self")
        case easy: True
        obtain r s2 where "hardlink_recursive self fnmatch (source @ [name]) item (target @ [name])
          ow pats (if path_exists (tfs s) (target @ [name]) then s
            else counted one_created (printed self (CreatedDirectory (target @ [name])) INFO
                 (if dry_run self then s else s\<lparr>tfs := tfs s\<rparr>))) = (Inr r, s2)"
          by (rule hardlink_recursive_returns)
        with visited nofile True easy show thesis
          by (intro entered [of "tfs s" r s2]) auto
      next
        case hard: False
        show thesis
        proof (cases "path_mkdir True (target @ [name]) (tfs s)")
          case (Inl e)
          with visited nofile True hard show thesis
            by (intro raised [of e]) auto
        next
          case (Inr st)
          obtain r s2 where "hardlink_recursive self fnmatch (source @ [name]) item
            (target @ [name]) ow pats (if path_exists (tfs s) (target @ [name]) then s
              else counted one_created (printed self (CreatedDirectory (target @ [name])) INFO
                 (if dry_run self then s else s\<lparr>tfs := st\<rparr>))) = (Inr r, s2)"
            by (rule hardlink_recursive_returns)
          with visited nofile True Inr show thesis
            by (intro entered [of st r s2]) auto
        qed
      qed
    qed
  qed
qed



lemma items_flag:
  "hardlink_items self fnmatch source xs target ow pats success s =
     (case hardlink_items self fnmatch source xs target ow pats True s of
        (Inl e, s1) \<Rightarrow> (Inl e, s1)
      | (Inr b, s1) \<Rightarrow> (Inr (success \<and> b), s1))"
proof (induction xs arbitrary: success s)
  case Nil
  show ?case by simp
next
  case (Cons x xs)
  obtain name item where x: "x = (name, item)" by (cases x)
  show ?case
  proof (cases rule: entry_cases [where fnmatch = fnmatch and source = source and name = name and pats = pats
      and item = item and self = self and target = target and ow = ow and s = s])
    case excluded
    then show ?thesis
      unfolding x using Cons.IH [of success] by (simp add: items_excluded)
  next
    case (regular r s1)
    then show ?thesis
      unfolding x using Cons.IH [of "success \<and> r" s1] Cons.IH [of r s1]
      by (auto simp add: items_file [OF regular] split: prod.splits sum.splits)
  next
    case (raised e)
    then show ?thesis unfolding x by (simp add: items_dir_raise [OF raised])
  next
    case (entered st r s2)
    then show ?thesis
      unfolding x using Cons.IH [of "success \<and> r" s2] Cons.IH [of r s2]
      by (auto simp add: items_dir_enter [OF entered(1-3) refl entered(4,5)]
          split: prod.splits sum.splits)
  next
    case special
    then show ?thesis
      unfolding x using Cons.IH [of success] by (simp add: items_special)
  qed
qed


lemma directory_raise:
  "is_dir dir \<Longrightarrow> \<not> path_exists (tfs s) target \<Longrightarrow> \<not> dry_run self \<Longrightarrow>
   path_mkdir True target (tfs s) = Inl e \<Longrightarrow>
   hardlink_directory self fnmatch source (Some dir) target ow pats s = (Inl e, s)"
  by (simp add: hardlink_directory_def io_seq_when io_seq_assoc io_seq_fs)

lemma directory_enter:
  assumes "is_dir dir"
    and "s1 = (if path_exists (tfs s) target then s
         else counted one_created (printed self (CreatedTargetDirectory target) INFO
                (if dry_run self then s else s\<lparr>tfs := st\<rparr>)))"
    and "path_exists (tfs s) target \<or> dry_run self \<or> path_mkdir True target (tfs s) = Inr st"
  shows "hardlink_directory self fnmatch source (Some dir) target ow pats s =
         hardlink_recursive self fnmatch source dir target ow pats s1"
proof -
  obtain r s2 where run: "hardlink_recursive self fnmatch source dir target ow pats s1 = (Inr r, s2)"
    by (rule hardlink_recursive_returns)
  with assms show ?thesis
    by (auto simp: hardlink_directory_def io_seq_when io_seq_assoc io_seq_fs io_try_run)
qed





section \<open>What the walk leaves alone\<close>

text \<open>\<open>mkdir\<close> changes the store only where nothing was, at the path or above it.\<close>

lemma os_mkdir_frame:
  "os_mkdir p st = Inr st' \<Longrightarrow> st' q \<noteq> st q \<Longrightarrow> st q = None \<and> q = p"
  by (auto dest!: os_mkdir_result split: if_splits)

lemma path_mkdir_frame:
  "path_mkdir parents p st = Inr st' \<Longrightarrow> st' q \<noteq> st q \<Longrightarrow> st q = None \<and> prefix q p"
proof (induction parents p st arbitrary: st' rule: path_mkdir.induct)
  case (1 parents p st)
  show ?case
  proof (cases "os_mkdir p st")
    case (Inr st1)
    with 1(3,4) show ?thesis
      by (auto simp: path_mkdir.simps [of parents p st] dest: os_mkdir_frame)
  next
    case (Inl e)
    show ?thesis
    proof (cases "e = OSError ENOENT \<and> parents \<and> p \<noteq> []")
      case False
      with Inl 1(3,4) show ?thesis
        by (auto simp: path_mkdir.simps [of parents p st] split: if_splits)
    next
      case True
      from 1(3) have "(case path_mkdir True (butlast p) st of
          Inl e' \<Rightarrow> Inl e' | Inr st1 \<Rightarrow> path_mkdir False p st1) = Inr st'"
        by (subst (asm) path_mkdir.simps) (simp add: Inl True)
      then obtain st1 where
        up: "path_mkdir True (butlast p) st = Inr st1" and
        here: "path_mkdir False p st1 = Inr st'"
        by (auto split: sum.splits)
      have a: "st1 q \<noteq> st q \<Longrightarrow> st q = None \<and> prefix q (butlast p)"
        using 1(1) [OF Inl _ _ up] True by blast
      have b: "st' q \<noteq> st1 q \<Longrightarrow> st1 q = None \<and> prefix q p"
        using 1(2) [OF Inl _ _ up here] True by blast
      have "prefix q (butlast p) \<Longrightarrow> prefix q p"
        by (metis prefix_order.trans prefixeq_butlast)
      with a b 1(4) show ?thesis
        by metis
    qed
  qed
qed

text \<open>\<open>_hardlink_file\<close> changes the store at the target path only.\<close>

lemma hardlink_file_frame:
  assumes "q \<noteq> tf"
  shows "tfs (snd (hardlink_file self sf i tf ow s)) q = tfs s q"
proof (cases rule: target_cases [where s = s and tf = tf and ow = ow and i = i])
  case absent
  with assms show ?thesis
    by (auto simp: hardlink_file_def io_try_run body_absent create_the_hardlink_run
        hardlink_file_except_run split: sum.splits dest!: os_link_result)
next
  case keep
  then show ?thesis
    by (simp add: hardlink_file_def io_try_run body_keep)
next
  case same
  then show ?thesis
    by (simp add: hardlink_file_def io_try_run body_same)
next
  case replace
  show ?thesis
    unfolding hardlink_file_def io_try_run body_replace [OF replace]
    using assms
    by (auto simp: create_the_hardlink_run hardlink_file_except_run
        split: sum.splits dest!: os_link_result unlink_result)
qed


lemma prefix_snoc_cases:
  "prefix q (p @ [n]) \<Longrightarrow> q = p @ [n] \<or> prefix q p"
  by simp

text \<open>
  The walk changes the store only below the target directory, or above it where nothing
  was.
\<close>

lemma walk_frame:
  "tfs (snd (hardlink_recursive self fnmatch source dir target ow pats s)) q \<noteq> tfs s q \<Longrightarrow>
     strict_prefix target q \<or> tfs s q = None \<and> prefix q target"
  "tfs (snd (hardlink_items self fnmatch source items target ow pats success s)) q \<noteq> tfs s q \<Longrightarrow>
     (\<exists>n \<in> fst ` set items. prefix (target @ [n]) q) \<or> tfs s q = None \<and> prefix q target"
proof (induction self fnmatch source dir target ow pats
    and self fnmatch source items target ow pats success
    arbitrary: s and s rule: hardlink_recursive_hardlink_items.induct)
  case (1 self fnmatch source dir target ow pats)
  show ?case
  proof (cases "iterdir dir")
    case (Inl e)
    with 1(2) show ?thesis
      by (simp add: hardlink_recursive_run hardlink_recursive_except_run)
  next
    case (Inr items)
    have same: "tfs (snd (hardlink_recursive self fnmatch source dir target ow pats s)) =
        tfs (snd (hardlink_items self fnmatch source items target ow pats True s))"
      using Inr
      by (simp add: hardlink_recursive_run hardlink_recursive_except_run
          split: prod.splits sum.splits)
    have "prefix (target @ [n]) q \<Longrightarrow> strict_prefix target q" for n
      by (metis prefix_order.dual_order.strict_trans1 strict_prefixI' )
    with 1(1) [OF Inr, of s] 1(2) same show ?thesis
      by auto
  qed
next
  case (2 self fnmatch source target ow pats success)
  then show ?case by simp
next
  case (3 self fnmatch source name item rest target ow pats success)
  let ?run = "\<lambda>success s. hardlink_items self fnmatch source rest target ow pats success s"
  note changed = 3(6)
  show ?case
  proof (cases rule: entry_cases [where fnmatch = fnmatch and source = source and name = name
        and pats = pats and item = item and self = self and target = target and ow = ow
        and s = s])
    case excluded
    with 3(1) [OF excluded, of "counted one_skipped
        (printed self (Excluding (source @ [name])) INFO s)"] changed
    show ?thesis
      by (auto simp: items_excluded)
  next
    case (regular r s1)
    have here: "tfs s1 q = tfs s q" if "q \<noteq> target @ [name]"
      using hardlink_file_frame [OF that, of self "source @ [name]" "file_id item" ow s]
        regular(3) by simp
    from changed have ch: "tfs (snd (?run (success \<and> r) s1)) q \<noteq> tfs s q"
      by (simp add: items_file [OF regular])
    show ?thesis
    proof (cases "q = target @ [name]")
      case True
      then show ?thesis by auto
    next
      case False
      with here ch 3(2) [OF regular(1,2), of r s1] show ?thesis
        by auto
    qed
  next
    case (raised e)
    with changed show ?thesis
      by (simp add: items_dir_raise [OF raised])
  next
    case (entered st r s2)
    let ?s1 = "if path_exists (tfs s) (target @ [name]) then s
          else counted one_created (printed self (CreatedDirectory (target @ [name])) INFO
                 (if dry_run self then s else s\<lparr>tfs := st\<rparr>))"
    from changed have ch: "tfs (snd (?run (success \<and> r) s2)) q \<noteq> tfs s q"
      by (simp add: items_dir_enter [OF entered(1-3) refl entered(4,5)])
    have made: "tfs ?s1 q \<noteq> tfs s q \<Longrightarrow> tfs s q = None \<and> prefix q (target @ [name])"
      using entered(4) path_mkdir_frame [of True "target @ [name]" "tfs s" st q]
      by (auto split: if_splits)
    have below: "tfs s2 q \<noteq> tfs ?s1 q \<Longrightarrow>
        strict_prefix (target @ [name]) q \<or> tfs ?s1 q = None \<and> prefix q (target @ [name])"
      using 3(3) [OF entered(1-3), of ?s1] entered(5) by simp
    have after: "tfs (snd (?run (success \<and> r) s2)) q \<noteq> tfs s2 q \<Longrightarrow>
        (\<exists>n \<in> fst ` set rest. prefix (target @ [n]) q) \<or> tfs s2 q = None \<and> prefix q target"
      using 3(4) [OF entered(1-3), of r s2] by simp
    show ?thesis
    proof (cases "tfs ?s1 q = tfs s q")
      case False
      with made show ?thesis
        by (auto dest: prefix_snoc_cases)
    next
      case s1: True
      show ?thesis
      proof (cases "tfs s2 q = tfs ?s1 q")
        case False
        with below s1 show ?thesis
          by (auto dest: prefix_snoc_cases simp: strict_prefix_def)
      next
        case True
        with s1 ch after show ?thesis
          by auto
      qed
    qed
  next
    case special
    with 3(5) [OF special, of "counted one_skipped
        (printed self (SkippingSpecialFile (source @ [name])) WARN s)"] changed
    show ?thesis
      by (auto simp: items_special)
  qed
qed

section \<open>Dry run against real run\<close>

lemma items_true_flag:
  "hardlink_items self fnmatch source items target ow pats success s = (Inr True, s') \<Longrightarrow> success"
  by (subst (asm) items_flag) (auto split: prod.splits sum.splits)

lemma sibling_below:
  "prefix (target @ [n]) q \<Longrightarrow> n \<noteq> name \<Longrightarrow>
     \<not> prefix (target @ [name]) q \<and> \<not> prefix q (target @ [name]) \<and> \<not> prefix q target"
  by (auto simp: prefix_def append_eq_append_conv2 Cons_eq_append_conv append_eq_Cons_conv)


lemma dry_run_agrees:
  "\<not> dry_run self \<Longrightarrow> dry_run self' \<Longrightarrow> distinct_names dir \<Longrightarrow>
   hardlink_recursive self fnmatch source dir target ow pats s = (Inr True, s') \<Longrightarrow>
   (\<forall>q. strict_prefix target q \<longrightarrow> tfs d q = tfs s q) \<Longrightarrow> stats d = stats s \<Longrightarrow>
   fst (hardlink_recursive self' fnmatch source dir target ow pats d) = Inr True \<and>
   stats (snd (hardlink_recursive self' fnmatch source dir target ow pats d)) = stats s'"
  "\<not> dry_run self \<Longrightarrow> dry_run self' \<Longrightarrow> distinct_entries items \<Longrightarrow>
   hardlink_items self fnmatch source items target ow pats success s = (Inr True, s') \<Longrightarrow>
   (\<forall>n \<in> fst ` set items. \<forall>q. prefix (target @ [n]) q \<longrightarrow> tfs d q = tfs s q) \<Longrightarrow>
   stats d = stats s \<Longrightarrow>
   fst (hardlink_items self' fnmatch source items target ow pats success d) = Inr True \<and>
   stats (snd (hardlink_items self' fnmatch source items target ow pats success d)) = stats s'"
proof (induction self fnmatch source dir target ow pats
    and self fnmatch source items target ow pats success
    arbitrary: s s' d and s s' d rule: hardlink_recursive_hardlink_items.induct)
  case (1 self fnmatch source dir target ow pats)
  from 1(5) obtain items where items: "iterdir dir = Inr items"
    by (cases "iterdir dir") (auto simp: hardlink_recursive_run hardlink_recursive_except_run)
  with 1(5) have run: "hardlink_items self fnmatch source items target ow pats True s = (Inr True, s')"
    by (auto simp: hardlink_recursive_run hardlink_recursive_except_run
        split: prod.splits sum.splits)
  from items 1(4) have dist: "distinct_entries items"
    by (cases dir) auto
  have agree: "\<forall>n \<in> fst ` set items. \<forall>q. prefix (target @ [n]) q \<longrightarrow> tfs d q = tfs s q"
    using 1(6) by (meson prefix_order.dual_order.strict_trans1 strict_prefixI')
  from 1(1) [OF items 1(2,3) dist run agree 1(7)] items show ?case
    by (cases "hardlink_items self' fnmatch source items target ow pats True d")
      (auto simp: hardlink_recursive_run)
next
  case (2 self fnmatch source target ow pats success)
  then show ?case by simp
next
  case (3 self fnmatch source name item rest target ow pats success)
  note real = 3(6) and dry = 3(7) and run = 3(9) and agree = 3(10) and counts = 3(11)
  from 3(8) have dist: "name \<notin> fst ` set rest" "distinct_names item" "distinct_entries rest"
    by simp_all
  have here: "tfs d (target @ [name]) = tfs s (target @ [name])"
    using agree by simp
  have others: "tfs d q = tfs s q \<and> \<not> prefix (target @ [name]) q \<and>
      \<not> prefix q (target @ [name]) \<and> \<not> prefix q target"
    if "n \<in> fst ` set rest" "prefix (target @ [n]) q" for n q
    using that agree dist(1) sibling_below [of target n q name] by auto
  show ?case
  proof (cases rule: entry_cases [where fnmatch = fnmatch and source = source and name = name
        and pats = pats and item = item and self = self and target = target and ow = ow
        and s = s])
    case excluded
    let ?step = "\<lambda>self s. counted one_skipped (printed self (Excluding (source @ [name])) INFO s)"
    from run have "hardlink_items self fnmatch source rest target ow pats success (?step self s) =
        (Inr True, s')"
      by (simp add: items_excluded [OF excluded])
    from 3(1) [OF excluded real dry dist(3) this, of "?step self' d"] others counts
    show ?thesis
      by (simp add: items_excluded [OF excluded])
  next
    case (regular r s1)
    from run have rest: "hardlink_items self fnmatch source rest target ow pats (success \<and> r) s1 =
        (Inr True, s')"
      by (simp add: items_file [OF regular])
    then have r: "r" and success: "success"
      using items_true_flag by blast+
    let ?d = "hardlink_file self' (source @ [name]) (file_id item) (target @ [name]) ow d"
    note d = hardlink_file_dry [OF dry, of "source @ [name]" "file_id item" "target @ [name]" ow d]
    have d_run: "?d = (Inr True, snd ?d)"
      using d(1) by (cases ?d) simp
    note s = hardlink_file_real [OF real regular(3) [unfolded r [THEN eqTrueI]]]
    have counts1: "stats (snd ?d) = stats s1"
      using d(3) s(2) here counts by simp
    have agree1: "\<forall>n \<in> fst ` set rest. \<forall>q. prefix (target @ [n]) q \<longrightarrow>
        tfs (snd ?d) q = tfs s1 q"
    proof (intro ballI allI impI)
      fix n q assume n: "n \<in> fst ` set rest" "prefix (target @ [n]) q"
      from others [OF n] have "q \<noteq> target @ [name]" by auto
      with s(1) d(2) others [OF n] show "tfs (snd ?d) q = tfs s1 q"
        by simp
    qed
    from 3(2) [OF regular(1,2) real dry dist(3) rest agree1 counts1] r
    show ?thesis
      by (simp add: items_file [OF regular(1,2) d_run])
  next
    case (raised e)
    with run show ?thesis
      by (simp add: items_dir_raise [OF raised])
  next
    case (entered st r s2)
    define s1 where "s1 = (if path_exists (tfs s) (target @ [name]) then s
          else counted one_created (printed self (CreatedDirectory (target @ [name])) INFO
                 (if dry_run self then s else s\<lparr>tfs := st\<rparr>)))"
    define d1 where "d1 = (if path_exists (tfs d) (target @ [name]) then d
          else counted one_created (printed self' (CreatedDirectory (target @ [name])) INFO
                 (if dry_run self' then d else d\<lparr>tfs := tfs d\<rparr>)))"
    note enter = entered(5) [folded s1_def]
    from run have rest: "hardlink_items self fnmatch source rest target ow pats (success \<and> r) s2 =
        (Inr True, s')"
      by (simp add: items_dir_enter [OF entered(1-3) s1_def entered(4) enter])
    then have r: "r" and success: "success"
      using items_true_flag by blast+
    have made: "tfs s1 q \<noteq> tfs s q \<Longrightarrow> prefix q (target @ [name])" for q
      using entered(4) path_mkdir_frame [of True "target @ [name]" "tfs s" st q]
      by (auto simp: s1_def split: if_splits)
    have counts1: "stats d1 = stats s1"
      using counts here by (simp add: path_exists_def s1_def d1_def)
    have d1_same: "tfs d1 = tfs d"
      by (simp add: d1_def)
    have agree1: "\<forall>q. strict_prefix (target @ [name]) q \<longrightarrow> tfs d1 q = tfs s1 q"
    proof (intro allI impI)
      fix q assume q: "strict_prefix (target @ [name]) q"
      then have "\<not> prefix q (target @ [name])"
        by (metis prefix_order.antisym strict_prefix_def)
      with made have "tfs s1 q = tfs s q" by blast
      moreover from q agree have "tfs d q = tfs s q"
        by (auto simp: strict_prefix_def)
      ultimately show "tfs d1 q = tfs s1 q"
        using d1_same by simp
    qed
    define rec where
      "rec = hardlink_recursive self' fnmatch (source @ [name]) item (target @ [name]) ow pats d1"
    from 3(3) [OF entered(1-3) real dry dist(2) enter [unfolded r [THEN eqTrueI]] agree1 counts1]
    have rec: "fst rec = Inr True" "stats (snd rec) = stats s2"
      by (simp_all add: rec_def)
    then have d_run: "hardlink_recursive self' fnmatch (source @ [name]) item (target @ [name])
        ow pats d1 = (Inr True, snd rec)"
      by (cases rec) (simp add: rec_def)
    have d_same: "tfs (snd rec) = tfs d"
      using dry_run_frame(1) [OF dry, of fnmatch "source @ [name]" item "target @ [name]" ow pats d1]
        d1_same by (simp add: rec_def)
    have agree2: "\<forall>n \<in> fst ` set rest. \<forall>q. prefix (target @ [n]) q \<longrightarrow>
        tfs (snd rec) q = tfs s2 q"
    proof (intro ballI allI impI)
      fix n q assume n: "n \<in> fst ` set rest" "prefix (target @ [n]) q"
      note o = others [OF n]
      from o made have a: "tfs s1 q = tfs s q" by blast
      from walk_frame(1) [of self fnmatch "source @ [name]" item "target @ [name]" ow pats s1 q]
        enter
      have "tfs s2 q \<noteq> tfs s1 q \<Longrightarrow>
          strict_prefix (target @ [name]) q \<or> tfs s1 q = None \<and> prefix q (target @ [name])"
        by simp
      with o have "tfs s2 q = tfs s1 q"
        by (auto simp: strict_prefix_def)
      with a o d_same show "tfs (snd rec) q = tfs s2 q" by simp
    qed
    from 3(4) [OF entered(1-3) real dry dist(3) rest agree2 rec(2)] r
    show ?thesis
      using dry by (simp add: items_dir_enter [OF entered(1-3) d1_def _ d_run])
  next
    case special
    let ?step = "\<lambda>self s. counted one_skipped
        (printed self (SkippingSpecialFile (source @ [name])) WARN s)"
    from run have "hardlink_items self fnmatch source rest target ow pats success (?step self s) =
        (Inr True, s')"
      by (simp add: items_special [OF special])
    from 3(5) [OF special real dry dist(3) this, of "?step self' d"] others counts
    show ?thesis
      by (simp add: items_special [OF special])
  qed
qed

lemma path_mkdir_creates:
  "path_mkdir parents p st = Inr st' \<Longrightarrow> st' p \<noteq> None"
proof (induction parents p st arbitrary: st' rule: path_mkdir.induct)
  case (1 parents p st)
  show ?case
  proof (cases "os_mkdir p st")
    case (Inr st1)
    with 1(3) show ?thesis
      by (subst (asm) path_mkdir.simps) (auto dest!: os_mkdir_result)
  next
    case (Inl e)
    show ?thesis
    proof (cases "e = OSError ENOENT \<and> parents \<and> p \<noteq> []")
      case False
      with Inl 1(3) show ?thesis
        by (subst (asm) path_mkdir.simps)
          (auto simp: target_is_dir_def split: if_splits option.splits node.splits)
    next
      case True
      from 1(3) have "(case path_mkdir True (butlast p) st of
          Inl e' \<Rightarrow> Inl e' | Inr st1 \<Rightarrow> path_mkdir False p st1) = Inr st'"
        by (subst (asm) path_mkdir.simps) (simp add: Inl True)
      then obtain st1 where
        up: "path_mkdir True (butlast p) st = Inr st1" and
        here: "path_mkdir False p st1 = Inr st'"
        by (auto split: sum.splits)
      from 1(2) [OF Inl _ _ up here] True show ?thesis by blast
    qed
  qed
qed

text \<open>
  Claim C2, as amended. For a source tree whose directories list every name once, a real
  invocation that returns true and a dry-run invocation started in the same state end with
  the same four counters, and the dry run returns true as well.
\<close>

theorem dry_run_statistics:
  assumes real: "\<not> dry_run self" and dry: "dry_run self'"
    and names: "distinct_names dir"
    and ok: "fst (hardlink_directory self fnmatch source (Some dir) target overwrite
                exclude_patterns s) = Inr True"
  shows "fst (hardlink_directory self' fnmatch source (Some dir) target overwrite
                exclude_patterns s) = Inr True \<and>
         stats (snd (hardlink_directory self' fnmatch source (Some dir) target overwrite
                exclude_patterns s)) =
         stats (snd (hardlink_directory self fnmatch source (Some dir) target overwrite
                exclude_patterns s))"
proof -
  from ok have dir: "is_dir dir"
    by (auto simp: hardlink_directory_def split: if_splits)
  have "path_exists (tfs s) target \<or> (\<exists>st. path_mkdir True target (tfs s) = Inr st)"
  proof (rule ccontr)
    assume "\<not> ?thesis"
    then obtain e where "\<not> path_exists (tfs s) target" "path_mkdir True target (tfs s) = Inl e"
      by (cases "path_mkdir True target (tfs s)") auto
    from directory_raise [OF dir this(1) real this(2)] ok show False
      by simp
  qed
  then obtain st where made:
    "path_exists (tfs s) target \<or> dry_run self \<or> path_mkdir True target (tfs s) = Inr st"
    by blast
  define s1 where "s1 = (if path_exists (tfs s) target then s
         else counted one_created (printed self (CreatedTargetDirectory target) INFO
                (if dry_run self then s else s\<lparr>tfs := st\<rparr>)))"
  define d1 where "d1 = (if path_exists (tfs s) target then s
         else counted one_created (printed self' (CreatedTargetDirectory target) INFO
                (if dry_run self' then s else s\<lparr>tfs := tfs s\<rparr>)))"
  note run_real = directory_enter [OF dir s1_def made, of fnmatch source overwrite exclude_patterns]
  have run_dry: "hardlink_directory self' fnmatch source (Some dir) target overwrite
      exclude_patterns s =
      hardlink_recursive self' fnmatch source dir target overwrite exclude_patterns d1"
    using dry by (intro directory_enter [OF dir d1_def]) simp
  obtain s' where rec: "hardlink_recursive self fnmatch source dir target overwrite
      exclude_patterns s1 = (Inr True, s')"
    using ok unfolding run_real
    by (cases "hardlink_recursive self fnmatch source dir target overwrite exclude_patterns s1")
      simp
  have counts: "stats d1 = stats s1"
    by (simp add: s1_def d1_def)
  have agree: "\<forall>q. strict_prefix target q \<longrightarrow> tfs d1 q = tfs s1 q"
  proof (intro allI impI)
    fix q assume q: "strict_prefix target q"
    then have "\<not> prefix q target"
      by (metis prefix_order.antisym strict_prefix_def)
    then have "tfs s1 q = tfs s q"
      using made real path_mkdir_frame [of True target "tfs s" st q]
      by (auto simp: s1_def)
    moreover have "tfs d1 q = tfs s q"
      by (simp add: d1_def)
    ultimately show "tfs d1 q = tfs s1 q" by simp
  qed
  from dry_run_agrees(1) [OF real dry names rec agree counts] rec
  show ?thesis
    unfolding run_real run_dry by simp
qed

text \<open>The small tree, mirrored into a target that does not exist yet.\<close>

theorem dry_run_statistics_witness:
  "(let real = hardlink_directory \<lparr>verbose = False, dry_run = False\<rparr> (=) [''s'']
                 (Some small_tree) [''t''] False None (fresh no_target);
        dry = hardlink_directory \<lparr>verbose = False, dry_run = True\<rparr> (=) [''s'']
                 (Some small_tree) [''t''] False None (fresh no_target)
    in fst real = Inr True \<and> fst dry = Inr True \<and> stats (snd dry) = stats (snd real) \<and>
       stats (snd real) = \<lparr>files_linked = 3, dirs_created = 2, errors = 0, skipped = 0\<rparr>)"
proof -
  have names: "distinct_names small_tree"
    by (simp add: small_tree_def)
  have ok: "fst (hardlink_directory \<lparr>verbose = False, dry_run = False\<rparr> (=) [''s'']
      (Some small_tree) [''t''] False None (fresh no_target)) = Inr True"
    by code_simp
  have counts: "stats (snd (hardlink_directory \<lparr>verbose = False, dry_run = False\<rparr> (=) [''s'']
      (Some small_tree) [''t''] False None (fresh no_target))) =
      \<lparr>files_linked = 3, dirs_created = 2, errors = 0, skipped = 0\<rparr>"
    by code_simp
  from dry_run_statistics [of "\<lparr>verbose = False, dry_run = False\<rparr>"
      "\<lparr>verbose = False, dry_run = True\<rparr>", OF _ _ names ok] ok counts
  show ?thesis
    by (simp add: Let_def)
qed

text \<open>
  The claim as first stated fails: into a target on another device the real run counts
  three errors and no linked file, the dry run three linked files and no error.
\<close>

theorem dry_run_statistics_counterexample:
  "(let real = hardlink_directory \<lparr>verbose = False, dry_run = False\<rparr> (=) [''s'']
                 (Some small_tree) [''t''] False None (fresh other_device);
        dry = hardlink_directory \<lparr>verbose = False, dry_run = True\<rparr> (=) [''s'']
                 (Some small_tree) [''t''] False None (fresh other_device)
    in stats (snd real) = \<lparr>files_linked = 0, dirs_created = 1, errors = 3, skipped = 0\<rparr> \<and>
       stats (snd dry) = \<lparr>files_linked = 3, dirs_created = 1, errors = 0, skipped = 0\<rparr>)"
  by code_simp

section \<open>Running twice\<close>

text \<open>
  The counters after a second pass: only \<open>skipped\<close> grows, by what the first pass linked or
  skipped.
\<close>

lemma rerun:
  "\<not> dry_run self \<Longrightarrow> ow \<Longrightarrow> distinct_names dir \<Longrightarrow>
   hardlink_recursive self fnmatch source dir target ow pats s = (Inr True, s') \<Longrightarrow>
   (\<forall>q. strict_prefix target q \<longrightarrow> tfs u q = tfs s' q) \<Longrightarrow>
   fst (hardlink_recursive self fnmatch source dir target ow pats u) = Inr True \<and>
   tfs (snd (hardlink_recursive self fnmatch source dir target ow pats u)) = tfs u \<and>
   stats (snd (hardlink_recursive self fnmatch source dir target ow pats u)) =
     (stats u)\<lparr>skipped := skipped (stats u) +
        (files_linked (stats s') - files_linked (stats s)) +
        (skipped (stats s') - skipped (stats s))\<rparr>"
  "\<not> dry_run self \<Longrightarrow> ow \<Longrightarrow> distinct_entries items \<Longrightarrow>
   hardlink_items self fnmatch source items target ow pats success s = (Inr True, s') \<Longrightarrow>
   (\<forall>n \<in> fst ` set items. \<forall>q. prefix (target @ [n]) q \<longrightarrow> tfs u q = tfs s' q) \<Longrightarrow>
   fst (hardlink_items self fnmatch source items target ow pats success u) = Inr True \<and>
   tfs (snd (hardlink_items self fnmatch source items target ow pats success u)) = tfs u \<and>
   stats (snd (hardlink_items self fnmatch source items target ow pats success u)) =
     (stats u)\<lparr>skipped := skipped (stats u) +
        (files_linked (stats s') - files_linked (stats s)) +
        (skipped (stats s') - skipped (stats s))\<rparr>"
proof (induction self fnmatch source dir target ow pats
    and self fnmatch source items target ow pats success
    arbitrary: s s' u and s s' u rule: hardlink_recursive_hardlink_items.induct)
  case (1 self fnmatch source dir target ow pats)
  from 1(5) obtain items where items: "iterdir dir = Inr items"
    by (cases "iterdir dir") (auto simp: hardlink_recursive_run hardlink_recursive_except_run)
  with 1(5) have run: "hardlink_items self fnmatch source items target ow pats True s = (Inr True, s')"
    by (auto simp: hardlink_recursive_run hardlink_recursive_except_run
        split: prod.splits sum.splits)
  from items 1(4) have dist: "distinct_entries items"
    by (cases dir) auto
  have agree: "\<forall>n \<in> fst ` set items. \<forall>q. prefix (target @ [n]) q \<longrightarrow> tfs u q = tfs s' q"
    using 1(6) by (meson prefix_order.dual_order.strict_trans1 strict_prefixI')
  from 1(1) [OF items 1(2,3) dist run agree] items show ?case
    by (cases "hardlink_items self fnmatch source items target ow pats True u")
      (auto simp: hardlink_recursive_run)
next
  case (2 self fnmatch source target ow pats success)
  then show ?case by simp
next
  case (3 self fnmatch source name item rest target ow pats success)
  note real = 3(6) and ow = 3(7) and run = 3(9) and agree = 3(10)
  from 3(8) have dist: "name \<notin> fst ` set rest" "distinct_names item" "distinct_entries rest"
    by simp_all
  have agree_rest: "\<forall>n \<in> fst ` set rest. \<forall>q. prefix (target @ [n]) q \<longrightarrow> tfs u q = tfs s' q"
    using agree by simp
  have agree_here: "tfs u q = tfs s' q" if "prefix (target @ [name]) q" for q
    using agree that by simp
  have kept: "tfs s' q = tfs sa q"
    if "hardlink_items self fnmatch source rest target ow pats b sa = (Inr True, s')"
      and "prefix (target @ [name]) q" for b sa q
  proof (rule ccontr)
    assume "tfs s' q \<noteq> tfs sa q"
    with walk_frame(2) [of self fnmatch source rest target ow pats b sa q] that(1)
    consider n where "n \<in> fst ` set rest" "prefix (target @ [n]) q" | "prefix q target"
      by auto
    then show False
    proof cases
      case 1
      with dist(1) sibling_below [of target n q name] that(2) show False by auto
    next
      case 2
      with that(2) have "prefix (target @ [name]) target"
        by (rule prefix_order.trans)
      then show False by (simp add: prefix_def)
    qed
  qed
  show ?case
  proof (cases rule: entry_cases [where fnmatch = fnmatch and source = source and name = name
        and pats = pats and item = item and self = self and target = target and ow = ow
        and s = s])
    case excluded
    let ?step = "\<lambda>s. counted one_skipped (printed self (Excluding (source @ [name])) INFO s)"
    from run have "hardlink_items self fnmatch source rest target ow pats success (?step s) =
        (Inr True, s')"
      by (simp add: items_excluded [OF excluded])
    from 3(1) [OF excluded real ow dist(3) this, of "?step u"] agree_rest
    show ?thesis
      by (simp add: items_excluded [OF excluded] one_skipped_def)
  next
    case (regular r s1)
    from run have rest: "hardlink_items self fnmatch source rest target ow pats (success \<and> r) s1 =
        (Inr True, s')"
      by (simp add: items_file [OF regular])
    then have r: "r" and success: "success"
      using items_true_flag by blast+
    note first = hardlink_file_real [OF real regular(3) [unfolded r [THEN eqTrueI]]]
    have "tfs s1 (target @ [name]) = Some (File (file_id item))"
      using first(1) ow by (auto simp: relinks_def split: option.splits)
    with kept [OF rest, of "target @ [name]"] agree_here [of "target @ [name]"]
    have there: "tfs u (target @ [name]) = Some (File (file_id item))"
      by simp
    define u1 where "u1 = counted one_skipped
        (printed self (AlreadyHardlinked (target @ [name])) INFO u)"
    have again: "hardlink_file self (source @ [name]) (file_id item) (target @ [name]) ow u =
        (Inr True, u1)"
      using ow by (simp add: hardlink_file_def io_try_run body_same [OF there] u1_def)
    have "\<forall>n \<in> fst ` set rest. \<forall>q. prefix (target @ [n]) q \<longrightarrow> tfs u1 q = tfs s' q"
      using agree_rest by (simp add: u1_def)
    from 3(2) [OF regular(1,2) real ow dist(3) rest this] r first(2)
    show ?thesis
      by (auto simp: items_file [OF regular(1,2) again] u1_def one_skipped_def one_linked_def)
  next
    case (raised e)
    with run show ?thesis
      by (simp add: items_dir_raise [OF raised])
  next
    case (entered st r s2)
    define s1 where "s1 = (if path_exists (tfs s) (target @ [name]) then s
          else counted one_created (printed self (CreatedDirectory (target @ [name])) INFO
                 (if dry_run self then s else s\<lparr>tfs := st\<rparr>)))"
    note enter = entered(5) [folded s1_def]
    from run have rest: "hardlink_items self fnmatch source rest target ow pats (success \<and> r) s2 =
        (Inr True, s')"
      by (simp add: items_dir_enter [OF entered(1-3) s1_def entered(4) enter])
    then have r: "r" and success: "success"
      using items_true_flag by blast+
    have made: "tfs s1 (target @ [name]) \<noteq> None"
      using entered(4) real path_mkdir_creates [of True "target @ [name]" "tfs s" st]
      by (auto simp: s1_def path_exists_def)
    from walk_frame(1) [of self fnmatch "source @ [name]" item "target @ [name]" ow pats s1
        "target @ [name]"] enter made
    have "tfs s2 (target @ [name]) = tfs s1 (target @ [name])"
      by auto
    with made kept [OF rest, of "target @ [name]"] agree_here [of "target @ [name]"]
    have there: "path_exists (tfs u) (target @ [name])"
      by (simp add: path_exists_def)
    have agree1: "\<forall>q. strict_prefix (target @ [name]) q \<longrightarrow> tfs u q = tfs s2 q"
      using kept [OF rest] agree_here by (simp add: strict_prefix_def)
    define rec where
      "rec = hardlink_recursive self fnmatch (source @ [name]) item (target @ [name]) ow pats u"
    from 3(3) [OF entered(1-3) real ow dist(2) enter [unfolded r [THEN eqTrueI]] agree1]
    have rec: "fst rec = Inr True" "tfs (snd rec) = tfs u"
      "stats (snd rec) = (stats u)\<lparr>skipped := skipped (stats u) +
        (files_linked (stats s2) - files_linked (stats s1)) +
        (skipped (stats s2) - skipped (stats s1))\<rparr>"
      by (simp_all add: rec_def)
    then have again: "hardlink_recursive self fnmatch (source @ [name]) item (target @ [name])
        ow pats (if path_exists (tfs u) (target @ [name]) then u
          else counted one_created (printed self (CreatedDirectory (target @ [name])) INFO
                 (if dry_run self then u else u\<lparr>tfs := tfs u\<rparr>))) = (Inr True, snd rec)"
      using there by (cases rec) (simp add: rec_def)
    have "\<forall>n \<in> fst ` set rest. \<forall>q. prefix (target @ [n]) q \<longrightarrow> tfs (snd rec) q = tfs s' q"
      using agree_rest rec(2) by simp
    from 3(4) [OF entered(1-3) real ow dist(3) rest this] r rec there
    show ?thesis
      by (auto simp: items_dir_enter [OF entered(1-3) refl _ again] s1_def one_created_def)
  next
    case special
    let ?step = "\<lambda>s. counted one_skipped
        (printed self (SkippingSpecialFile (source @ [name])) WARN s)"
    from run have "hardlink_items self fnmatch source rest target ow pats success (?step s) =
        (Inr True, s')"
      by (simp add: items_special [OF special])
    from 3(5) [OF special real ow dist(3) this, of "?step u"] agree_rest
    show ?thesis
      by (simp add: items_special [OF special] one_skipped_def)
  qed
qed

text \<open>
  Claim C3, as amended. With \<open>dry_run\<close> off and \<open>overwrite\<close> on, on a source tree whose
  directories list every name once: when the first invocation returns true, a second
  invocation with the same arguments on the target as the first one left it returns true,
  links no file and changes nothing in the target; its only counter that grows is
  \<open>skipped\<close>, by the number of entries the first invocation linked or skipped.
\<close>

theorem second_run_skips:
  assumes real: "\<not> dry_run self" and names: "distinct_names dir"
    and first: "hardlink_directory self fnmatch source (Some dir) target True exclude_patterns s =
                  (Inr True, s1)"
    and start: "tfs s2 = tfs s1"
  shows "fst (hardlink_directory self fnmatch source (Some dir) target True exclude_patterns s2) =
           Inr True \<and>
         files_linked (stats (snd (hardlink_directory self fnmatch source (Some dir) target True
           exclude_patterns s2))) = files_linked (stats s2) \<and>
         stats (snd (hardlink_directory self fnmatch source (Some dir) target True
           exclude_patterns s2)) =
           (stats s2)\<lparr>skipped := skipped (stats s2) +
              (files_linked (stats s1) - files_linked (stats s)) +
              (skipped (stats s1) - skipped (stats s))\<rparr> \<and>
         tfs (snd (hardlink_directory self fnmatch source (Some dir) target True
           exclude_patterns s2)) = tfs s2"
proof -
  from first have dir: "is_dir dir"
    by (auto simp: hardlink_directory_def split: if_splits)
  have "path_exists (tfs s) target \<or> (\<exists>st. path_mkdir True target (tfs s) = Inr st)"
  proof (rule ccontr)
    assume "\<not> ?thesis"
    then obtain e where "\<not> path_exists (tfs s) target" "path_mkdir True target (tfs s) = Inl e"
      by (cases "path_mkdir True target (tfs s)") auto
    from directory_raise [OF dir this(1) real this(2)] first show False
      by simp
  qed
  then obtain st where made:
    "path_exists (tfs s) target \<or> dry_run self \<or> path_mkdir True target (tfs s) = Inr st"
    by blast
  define s0 where "s0 = (if path_exists (tfs s) target then s
         else counted one_created (printed self (CreatedTargetDirectory target) INFO
                (if dry_run self then s else s\<lparr>tfs := st\<rparr>)))"
  from first have rec: "hardlink_recursive self fnmatch source dir target True exclude_patterns s0 =
      (Inr True, s1)"
    unfolding directory_enter [OF dir s0_def made] .
  have "tfs s0 target \<noteq> None"
    using made real path_mkdir_creates [of True target "tfs s" st]
    by (auto simp: s0_def path_exists_def)
  moreover have "tfs s1 target = tfs s0 target"
    using walk_frame(1) [of self fnmatch source dir target True exclude_patterns s0 target] rec
      \<open>tfs s0 target \<noteq> None\<close>
    by (cases "tfs s1 target = tfs s0 target") simp_all
  ultimately have "tfs s1 target \<noteq> None"
    by simp
  with start have there: "path_exists (tfs s2) target"
    by (simp add: path_exists_def)
  have again: "hardlink_directory self fnmatch source (Some dir) target True exclude_patterns s2 =
      hardlink_recursive self fnmatch source dir target True exclude_patterns s2"
    using there by (intro directory_enter [OF dir, where st = "tfs s2"]) simp_all
  have counts: "files_linked (stats s0) = files_linked (stats s)"
    "skipped (stats s0) = skipped (stats s)"
    by (simp_all add: s0_def one_created_def)
  from rerun(1) [OF real _ names rec, of s2] start counts show ?thesis
    unfolding again by simp
qed

text \<open>
  The small tree mirrored twice by new engines: three files linked, then three skipped.
\<close>

theorem second_run_skips_witness:
  "(let first = hardlink_directory \<lparr>verbose = False, dry_run = False\<rparr> (=) [''s'']
                  (Some small_tree) [''t''] True None (fresh no_target);
        second = hardlink_directory \<lparr>verbose = False, dry_run = False\<rparr> (=) [''s'']
                  (Some small_tree) [''t''] True None (fresh (tfs (snd first)))
    in fst first = Inr True \<and>
       stats (snd first) = \<lparr>files_linked = 3, dirs_created = 2, errors = 0, skipped = 0\<rparr> \<and>
       fst second = Inr True \<and>
       stats (snd second) = \<lparr>files_linked = 0, dirs_created = 0, errors = 0, skipped = 3\<rparr> \<and>
       tfs (snd second) = tfs (snd first))"
proof -
  define first where "first = hardlink_directory \<lparr>verbose = False, dry_run = False\<rparr> (=) [''s'']
                  (Some small_tree) [''t''] True None (fresh no_target)"
  have names: "distinct_names small_tree"
    by (simp add: small_tree_def)
  have ok: "fst first = Inr True"
    unfolding first_def by code_simp
  have counts: "stats (snd first) = \<lparr>files_linked = 3, dirs_created = 2, errors = 0, skipped = 0\<rparr>"
    unfolding first_def by code_simp
  from ok have run: "hardlink_directory \<lparr>verbose = False, dry_run = False\<rparr> (=) [''s'']
      (Some small_tree) [''t''] True None (fresh no_target) = (Inr True, snd first)"
    unfolding first_def by (metis prod.collapse)
  from second_run_skips [OF _ names run, of "fresh (tfs (snd first))"] ok counts
  show ?thesis
    unfolding first_def [symmetric] by (simp add: Let_def fresh_def init_stats_def)
qed

text \<open>
  The claim as first stated fails: with \<open>dry_run\<close> on, the second invocation counts three
  linked files again; and into a target on another device the first invocation returns
  false.
\<close>

theorem second_run_skips_counterexample:
  "(let first = hardlink_directory \<lparr>verbose = False, dry_run = True\<rparr> (=) [''s'']
                  (Some small_tree) [''t''] True None (fresh no_target);
        second = hardlink_directory \<lparr>verbose = False, dry_run = True\<rparr> (=) [''s'']
                  (Some small_tree) [''t''] True None (fresh (tfs (snd first)))
    in fst first = Inr True \<and> fst second = Inr True \<and>
       files_linked (stats (snd second)) = 3) \<and>
   fst (hardlink_directory \<lparr>verbose = False, dry_run = False\<rparr> (=) [''s'']
          (Some small_tree) [''t''] True None (fresh other_device)) = Inr False"
  by code_simp

end
